theory Spec2Isabelle
  imports Main
begin

section \<open>The actor of \<open>src/actor.ts\<close>: data\<close>

text \<open>
  \<open>BaseMessage\<close> (lines 4-7): every message has a \<open>type\<close> and an optional
  \<open>version\<close>. A concrete message type extends the record with its payload.
\<close>

record BaseMessage =
  type :: string
  version :: "int option"

text \<open>
  \<open>Change\<close> (lines 10-14): one patch. A path entry is a property name or an index.
  The source's field \<open>value\<close> is called \<open>val\<close> here.
\<close>

datatype op_kind = Replace | Remove | Add

record 'v Change =
  op :: op_kind
  path :: "(string + nat) list"
  val :: "'v option"

text \<open>
  The entries of the history stacks (line 31): \<open>{ state, inversePatches }\<close>. The
  field \<open>state\<close> of an entry is called \<open>ck_state\<close>, since the actor has a field
  \<open>state\<close> of its own.
\<close>

record ('s, 'p) checkpoint =
  ck_state :: 's
  inversePatches :: "'p list"

text \<open>
  \<open>History\<close> (lines 16-19). Both stacks are JavaScript arrays used with \<open>push\<close>
  and \<open>pop\<close>: the top of a stack is the last element of the list.
\<close>

record 't History =
  past :: "'t list"
  future :: "'t list"

text \<open>
  The fields of the class \<open>Actor\<close> (lines 26-34) that \<open>subscribe\<close>,
  \<open>sendMessage\<close>, \<open>undo\<close> and \<open>redo\<close> read or write. The field \<open>id\<close> is called
  \<open>actor_id\<close>. The fields \<open>parent\<close> and \<open>children\<close> are used by \<open>createChild\<close>
  and \<open>getParent\<close> only and are left out.

  A subscriber is a callback. The actor compares callbacks by identity
  (\<open>subscriber !== callback\<close>, line 57) and calls them with the state (line 117), so a
  callback is a value of a type \<open>'c\<close> of callback identities, and a call of it is an
  event of the run.
\<close>

record ('s, 'c, 'p) Actor =
  actor_id :: string
  state :: 's
  subscribers :: "'c list"
  history :: "('s, 'p) checkpoint History"

text \<open>
  What a call does beside changing the actor: it calls subscribers (line 117) and writes
  warnings to the console (line 66). \<open>Notified callback s\<close> is the call of
  \<open>callback\<close> with the state \<open>s\<close>, whether the call returns or raises.
\<close>

datatype ('s, 'c) event = Notified 'c 's | Warned string

text \<open>
  What a subscriber does when it is called is the caller's code, not the repository's. It
  is a parameter \<open>run\<close> of every operation that notifies: \<open>run callback s\<close> is
  \<open>None\<close> when the call of \<open>callback\<close> with the state \<open>s\<close> returns and
  \<open>Some e\<close> when it raises \<open>e\<close>. A callback is taken not to call the actor's
  own methods while it runs (the spec, sections 5 and 9, leaves re-entrant calls open).
\<close>

type_synonym ('s, 'c, 'e) calls = "'c \<Rightarrow> 's \<Rightarrow> 'e option"

text \<open>
  The two abstract methods of the class (lines 74 and 113), which a concrete actor
  supplies. \<open>handleMessage\<close> edits the draft it is given, or raises: it maps the draft
  to the edited draft (\<open>Inr\<close>) or to the error raised (\<open>Inl\<close>).
\<close>

record ('s, 'm, 'e) behaviour =
  isMessageTypeValid :: "string \<Rightarrow> bool"
  handleMessage :: "'s \<Rightarrow> 'm \<Rightarrow> 'e + 's"

section \<open>The patch library\<close>

text \<open>
  The source imports \<open>produceWithPatches\<close> and \<open>applyPatches\<close> from a library
  (line 1) that is not part of the repository. The library is a parameter of the model:
  every operation that calls it takes the engine as an argument.
\<close>

text \<open>
  Modelled from the spec: the Diff Engine of section 4.1, which the repository imports
  and does not define. \<open>derivePatches base new\<close> are the forward and the inverse patch
  set of the transition from \<open>base\<close> to \<open>new\<close>; \<open>applyPatches s ps\<close> is the
  spec's \<open>applyReversible\<close>: the state reached by replaying \<open>ps\<close> on \<open>s\<close> and
  the patch set that reverses this replay, the pair that lines 127 and 141 take apart.
\<close>

record ('s, 'p) engine =
  derivePatches :: "'s \<Rightarrow> 's \<Rightarrow> 'p list \<times> 'p list"
  applyPatches :: "'s \<Rightarrow> 'p list \<Rightarrow> 's \<times> 'p list"

text \<open>
  Modelled from the spec: \<open>computeTransition\<close> of section 4.1, the library function
  that line 84 calls. The recipe runs on a working copy of the base state. If it raises,
  nothing is produced and the error is the caller's; otherwise the edited copy is the new
  state and the engine derives both patch sets.
\<close>

definition produceWithPatches ::
  "('s, 'p) engine \<Rightarrow> 's \<Rightarrow> ('s \<Rightarrow> 'e + 's) \<Rightarrow> 'e + ('s \<times> 'p list \<times> 'p list)" where
  "produceWithPatches eng base recipe =
     (case recipe base of
        Inl e \<Rightarrow> Inl e
      | Inr newState \<Rightarrow>
          Inr (newState, fst (derivePatches eng base newState),
               snd (derivePatches eng base newState)))"

text \<open>
  The required properties of the engine (spec, sections 2 and 4.1): the inverse patch
  set of a transition leads back to its base state, and the reverse patch set of a replay
  leads back to the state the replay started from.
\<close>

definition inverse_law :: "('s, 'p) engine \<Rightarrow> bool" where
  "inverse_law eng =
     (\<forall>base new. fst (applyPatches eng new (snd (derivePatches eng base new))) = base)"

definition reverse_law :: "('s, 'p) engine \<Rightarrow> bool" where
  "reverse_law eng =
     (\<forall>s ps. fst (applyPatches eng (fst (applyPatches eng s ps))
                     (snd (applyPatches eng s ps))) = s)"

section \<open>The operations\<close>

text \<open>The constructor (lines 36-41); \<open>onStart\<close> (line 44) does nothing.\<close>

definition new_Actor :: "string \<Rightarrow> 's \<Rightarrow> ('s, 'c, 'p) Actor" where
  "new_Actor i initialState =
     \<lparr>actor_id = i, state = initialState, subscribers = [],
      history = \<lparr>past = [], future = []\<rparr>\<rparr>"

text \<open>
  \<open>subscribe\<close> (lines 53-60) appends the callback and returns the closure that
  removes it; \<open>unsubscribe callback\<close> is that closure.
\<close>

definition unsubscribe :: "'c \<Rightarrow> ('s, 'c, 'p) Actor \<Rightarrow> ('s, 'c, 'p) Actor" where
  "unsubscribe callback a =
     a\<lparr>subscribers := filter (\<lambda>subscriber. subscriber \<noteq> callback) (subscribers a)\<rparr>"

definition subscribe ::
  "'c \<Rightarrow> ('s, 'c, 'p) Actor \<Rightarrow> ('s, 'c, 'p) Actor \<times> (('s, 'c, 'p) Actor \<Rightarrow> ('s, 'c, 'p) Actor)" where
  "subscribe callback a =
     (a\<lparr>subscribers := subscribers a @ [callback]\<rparr>, unsubscribe callback)"

text \<open>
  \<open>notifySubscribers\<close> (lines 116-118). \<open>forEach\<close> calls the callbacks in the order
  of the array, each with \<open>this.state\<close>. Nothing catches what a callback raises: the
  first callback that raises ends the loop, the callbacks after it are not called, and the
  error is the caller's. The result is the list of the calls made and the error, if any.
\<close>

fun call_each :: "('s, 'c, 'e) calls \<Rightarrow> 's \<Rightarrow> 'c list \<Rightarrow> ('s, 'c) event list \<times> 'e option" where
  "call_each run s [] = ([], None)"
| "call_each run s (callback # rest) =
     (case run callback s of
        Some e \<Rightarrow> ([Notified callback s], Some e)
      | None \<Rightarrow> (Notified callback s # fst (call_each run s rest), snd (call_each run s rest)))"

definition notifySubscribers ::
  "('s, 'c, 'e) calls \<Rightarrow> ('s, 'c, 'p) Actor \<Rightarrow> ('s, 'c) event list \<times> 'e option" where
  "notifySubscribers run a = call_each run (state a) (subscribers a)"

text \<open>
  The result of \<open>sendMessage\<close>, \<open>undo\<close> and \<open>redo\<close>: the actor after the call,
  the events of the call, and the error the call raised, if it raised one. A call that
  raises may have changed the actor before.
\<close>

record ('s, 'c, 'p, 'e) outcome =
  after :: "('s, 'c, 'p) Actor"
  emitted :: "('s, 'c) event list"
  raised :: "'e option"

text \<open>
  \<open>processMessage\<close> (lines 80-109). The call of \<open>produceWithPatches\<close> comes first:
  when it raises, no line after it runs. The subscribers are notified last (line 108),
  after the state and the history have been assigned: when one of them raises, the
  transition stays.
\<close>

definition processMessage ::
  "('s, 'c, 'e) calls \<Rightarrow> ('s, 'p) engine \<Rightarrow> ('s, 'm, 'e) behaviour \<Rightarrow> 'm
     \<Rightarrow> ('s, 'c, 'p) Actor \<Rightarrow> ('s, 'c, 'p, 'e) outcome" where
  "processMessage run eng cls message a =
     (case produceWithPatches eng (state a) (\<lambda>draft. handleMessage cls draft message) of
        Inl e \<Rightarrow> \<lparr>after = a, emitted = [], raised = Some e\<rparr>
      | Inr (newState, patches, inversePatches') \<Rightarrow>
          let a1 = a\<lparr>state := newState\<rparr>;
              a2 = a1\<lparr>history := (history a1)\<lparr>past := past (history a1) @
                     [\<lparr>ck_state = state a1, inversePatches = inversePatches'\<rparr>]\<rparr>\<rparr>;
              a3 = a2\<lparr>history := (history a2)\<lparr>future := []\<rparr>\<rparr>
          in \<lparr>after = a3, emitted = fst (notifySubscribers run a3),
              raised = snd (notifySubscribers run a3)\<rparr>)"

text \<open>\<open>sendMessage\<close> (lines 63-71).\<close>

definition sendMessage ::
  "('s, 'c, 'e) calls \<Rightarrow> ('s, 'p) engine \<Rightarrow> ('s, 'm BaseMessage_scheme, 'e) behaviour
     \<Rightarrow> 'm BaseMessage_scheme \<Rightarrow> ('s, 'c, 'p) Actor \<Rightarrow> ('s, 'c, 'p, 'e) outcome" where
  "sendMessage run eng cls message a =
     (if \<not> isMessageTypeValid cls (type message)
      then \<lparr>after = a, emitted = [Warned (''Unknown message type: '' @ type message)],
            raised = None\<rparr>
      else processMessage run eng cls message a)"

text \<open>
  \<open>undo\<close> (lines 121-132) and \<open>redo\<close> (lines 135-146). \<open>pop\<close> takes the last
  element; it is reached on a non-empty array only. Both notify last (lines 131 and 145).
\<close>

definition undo ::
  "('s, 'c, 'e) calls \<Rightarrow> ('s, 'p) engine \<Rightarrow> ('s, 'c, 'p) Actor \<Rightarrow> ('s, 'c, 'p, 'e) outcome" where
  "undo run eng a =
     (if length (past (history a)) = 0 then \<lparr>after = a, emitted = [], raised = None\<rparr>
      else
        let popped = last (past (history a));
            a1 = a\<lparr>history := (history a)\<lparr>past := butlast (past (history a))\<rparr>\<rparr>;
            (newState, newPatches) = applyPatches eng (state a1) (inversePatches popped);
            a2 = a1\<lparr>history := (history a1)\<lparr>future := future (history a1) @
                   [\<lparr>ck_state = state a1, inversePatches = newPatches\<rparr>]\<rparr>\<rparr>;
            a3 = a2\<lparr>state := newState\<rparr>
        in \<lparr>after = a3, emitted = fst (notifySubscribers run a3),
            raised = snd (notifySubscribers run a3)\<rparr>)"

definition redo ::
  "('s, 'c, 'e) calls \<Rightarrow> ('s, 'p) engine \<Rightarrow> ('s, 'c, 'p) Actor \<Rightarrow> ('s, 'c, 'p, 'e) outcome" where
  "redo run eng a =
     (if length (future (history a)) = 0 then \<lparr>after = a, emitted = [], raised = None\<rparr>
      else
        let popped = last (future (history a));
            a1 = a\<lparr>history := (history a)\<lparr>future := butlast (future (history a))\<rparr>\<rparr>;
            (newState, newPatches) = applyPatches eng (state a1) (inversePatches popped);
            a2 = a1\<lparr>history := (history a1)\<lparr>past := past (history a1) @
                   [\<lparr>ck_state = state a1, inversePatches = newPatches\<rparr>]\<rparr>\<rparr>;
            a3 = a2\<lparr>state := newState\<rparr>
        in \<lparr>after = a3, emitted = fst (notifySubscribers run a3),
            raised = snd (notifySubscribers run a3)\<rparr>)"

text \<open>
  Calling \<open>undo\<close>, or \<open>redo\<close>, \<open>n\<close> times in a row, and dispatching a list of
  messages one after the other. A caller that goes on after a call that raised goes on
  from the actor that call left.
\<close>

definition undo_times ::
  "('s, 'c, 'e) calls \<Rightarrow> ('s, 'p) engine \<Rightarrow> nat \<Rightarrow> ('s, 'c, 'p) Actor \<Rightarrow> ('s, 'c, 'p) Actor" where
  "undo_times run eng n = (\<lambda>a. after (undo run eng a)) ^^ n"

definition redo_times ::
  "('s, 'c, 'e) calls \<Rightarrow> ('s, 'p) engine \<Rightarrow> nat \<Rightarrow> ('s, 'c, 'p) Actor \<Rightarrow> ('s, 'c, 'p) Actor" where
  "redo_times run eng n = (\<lambda>a. after (redo run eng a)) ^^ n"

definition dispatch_all ::
  "('s, 'c, 'e) calls \<Rightarrow> ('s, 'p) engine \<Rightarrow> ('s, 'm BaseMessage_scheme, 'e) behaviour
     \<Rightarrow> 'm BaseMessage_scheme list \<Rightarrow> ('s, 'c, 'p) Actor \<Rightarrow> ('s, 'c, 'p) Actor" where
  "dispatch_all run eng cls messages a =
     foldl (\<lambda>b message. after (sendMessage run eng cls message b)) a messages"

text \<open>Subscribing a list of callbacks, one after the other.\<close>

definition subscribe_all :: "'c list \<Rightarrow> ('s, 'c, 'p) Actor \<Rightarrow> ('s, 'c, 'p) Actor" where
  "subscribe_all callbacks a = foldl (\<lambda>b callback. fst (subscribe callback b)) a callbacks"

text \<open>
  The state that undoing every entry of a stack leads to, from the top of the stack down:
  the state \<open>undo\<close> computes at line 127, iterated. It is used to state what the
  \<open>past\<close> stack records.
\<close>

definition rewind :: "('s, 'p) engine \<Rightarrow> ('s, 'p) checkpoint list \<Rightarrow> 's \<Rightarrow> 's" where
  "rewind eng cs s = foldr (\<lambda>c t. fst (applyPatches eng t (inversePatches c))) cs s"

text \<open>
  The patch set that \<open>undo\<close> followed by \<open>redo\<close> leaves in the place of an entry
  \<open>c\<close> of \<open>past\<close> that is undone at the state \<open>s\<close>. \<open>undo\<close> replays the patches
  of \<open>c\<close> on \<open>s\<close> and keeps the reverse patch set of this replay on \<open>future\<close>
  (lines 127 and 129); \<open>redo\<close> replays that patch set on the state \<open>undo\<close> reached
  and pushes the reverse patch set of its own replay (lines 141 and 143).
  \<open>rederived_all\<close> does this for a stack, from its top (the last element) down.
\<close>

definition rederived :: "('s, 'p) engine \<Rightarrow> ('s, 'p) checkpoint \<Rightarrow> 's \<Rightarrow> 'p list" where
  "rederived eng c s =
     snd (applyPatches eng (fst (applyPatches eng s (inversePatches c)))
            (snd (applyPatches eng s (inversePatches c))))"

fun rederived_from_top :: "('s, 'p) engine \<Rightarrow> ('s, 'p) checkpoint list \<Rightarrow> 's \<Rightarrow> 'p list list" where
  "rederived_from_top eng [] s = []"
| "rederived_from_top eng (c # cs) s =
     rederived eng c s # rederived_from_top eng cs (fst (applyPatches eng s (inversePatches c)))"

definition rederived_all :: "('s, 'p) engine \<Rightarrow> ('s, 'p) checkpoint list \<Rightarrow> 's \<Rightarrow> 'p list list" where
  "rederived_all eng cs s = rev (rederived_from_top eng (rev cs) s)"

section \<open>A concrete actor: the counter\<close>

text \<open>
  The counter of the spec's scenarios (section 8): the state is \<open>{count: n}\<close>, the
  message \<open>increment\<close> adds one to \<open>count\<close>. Two more message types are recognised:
  \<open>noop\<close>, whose handler edits nothing, and \<open>fail\<close>, whose handler raises.
\<close>

record CounterState =
  count :: int

definition counterBehaviour :: "(CounterState, BaseMessage, string) behaviour" where
  "counterBehaviour =
     \<lparr>isMessageTypeValid = (\<lambda>t. t = ''increment'' \<or> t = ''noop'' \<or> t = ''fail''),
      handleMessage = (\<lambda>draft message.
        if type message = ''increment'' then Inr (draft\<lparr>count := count draft + 1\<rparr>)
        else if type message = ''fail'' then Inl ''cannot handle''
        else Inr draft)\<rparr>"

definition msg :: "string \<Rightarrow> BaseMessage" where
  "msg t = \<lparr>type = t, version = None\<rparr>"

text \<open>
  Subscribers are numbered. With \<open>quiet\<close> every call of a subscriber returns; with
  \<open>first_fails\<close> every call of subscriber 1 raises and the others return.
\<close>

definition quiet :: "(CounterState, nat, string) calls" where
  "quiet = (\<lambda>callback s. None)"

definition first_fails :: "(CounterState, nat, string) calls" where
  "first_fails = (\<lambda>callback s. if callback = 1 then Some ''subscriber failed'' else None)"

text \<open>
  An engine for this state: the only patch it knows replaces the value at the path
  \<open>count\<close>. A transition that changes nothing has empty patch sets; a replay skips a
  patch it does not know, and builds the reverse patch set back to front.
\<close>

definition replace_count :: "int \<Rightarrow> int Change" where
  "replace_count v = \<lparr>op = Replace, path = [Inl ''count''], val = Some v\<rparr>"

definition counter_derive :: "CounterState \<Rightarrow> CounterState \<Rightarrow> int Change list \<times> int Change list" where
  "counter_derive base new =
     (if count new = count base then ([], [])
      else ([replace_count (count new)], [replace_count (count base)]))"

fun counter_apply :: "CounterState \<Rightarrow> int Change list \<Rightarrow> CounterState \<times> int Change list" where
  "counter_apply s [] = (s, [])"
| "counter_apply s (p # ps) =
     (if op p = Replace \<and> path p = [Inl ''count''] \<and> val p \<noteq> None
      then (fst (counter_apply (s\<lparr>count := the (val p)\<rparr>) ps),
            snd (counter_apply (s\<lparr>count := the (val p)\<rparr>) ps) @ [replace_count (count s)])
      else counter_apply s ps)"

definition counterEngine :: "(CounterState, int Change) engine" where
  "counterEngine = \<lparr>derivePatches = counter_derive, applyPatches = counter_apply\<rparr>"

text \<open>
  A second engine for the same state. It derives the patch sets of a transition as the
  first does. Its replay also knows the patch \<open>add\<close> at the path \<open>count\<close>, which
  sets the value as \<open>replace\<close> does, and it writes the reverse patch set with \<open>add\<close>.
  It has both required properties as well (shown below).
\<close>

definition add_count :: "int \<Rightarrow> int Change" where
  "add_count v = \<lparr>op = Add, path = [Inl ''count''], val = Some v\<rparr>"

fun adding_apply :: "CounterState \<Rightarrow> int Change list \<Rightarrow> CounterState \<times> int Change list" where
  "adding_apply s [] = (s, [])"
| "adding_apply s (p # ps) =
     (if (op p = Replace \<or> op p = Add) \<and> path p = [Inl ''count''] \<and> val p \<noteq> None
      then (fst (adding_apply (s\<lparr>count := the (val p)\<rparr>) ps),
            snd (adding_apply (s\<lparr>count := the (val p)\<rparr>) ps) @ [add_count (count s)])
      else adding_apply s ps)"

definition addingEngine :: "(CounterState, int Change) engine" where
  "addingEngine = \<lparr>derivePatches = counter_derive, applyPatches = adding_apply\<rparr>"

text \<open>
  Some actors of this kind: the fresh counter, the counter after one and after two
  increments, the counter whose only increment was undone, and counters with subscribers:
  two different ones, the same with its only increment undone, and one where callback 1
  is registered twice. \<open>added1\<close> is the counter after one increment on the second
  engine.
\<close>

definition counter0 :: "(CounterState, nat, int Change) Actor" where
  "counter0 = new_Actor ''counter'' \<lparr>count = 0\<rparr>"

definition counter1 :: "(CounterState, nat, int Change) Actor" where
  "counter1 =
     after (sendMessage quiet counterEngine counterBehaviour (msg ''increment'') counter0)"

definition counter1_undone :: "(CounterState, nat, int Change) Actor" where
  "counter1_undone = after (undo quiet counterEngine counter1)"

definition counter2 :: "(CounterState, nat, int Change) Actor" where
  "counter2 =
     dispatch_all quiet counterEngine counterBehaviour
       [msg ''increment'', msg ''increment''] counter0"

definition added1 :: "(CounterState, nat, int Change) Actor" where
  "added1 =
     after (sendMessage quiet addingEngine counterBehaviour (msg ''increment'') counter0)"

definition watched :: "(CounterState, nat, int Change) Actor" where
  "watched = fst (subscribe 2 (fst (subscribe 1 counter0)))"

definition watched_undone :: "(CounterState, nat, int Change) Actor" where
  "watched_undone =
     after (undo quiet counterEngine
       (after (sendMessage quiet counterEngine counterBehaviour (msg ''increment'') watched)))"


section \<open>Calling the subscribers\<close>

lemma call_each_returns:
  "\<forall>callback\<in>set cs. run callback s = None \<Longrightarrow>
     call_each run s cs = (map (\<lambda>callback. Notified callback s) cs, None)"
  by (induction cs) simp_all

lemma call_each_all_called:
  "\<forall>callback\<in>set (butlast cs). run callback s = None \<Longrightarrow>
     fst (call_each run s cs) = map (\<lambda>callback. Notified callback s) cs"
proof (induction cs)
  case Nil
  show ?case by simp
next
  case (Cons c rest)
  show ?case
  proof (cases "rest = []")
    case True
    then show ?thesis by (simp split: option.split)
  next
    case False
    with Cons.prems have "run c s = None"
      and "\<forall>callback\<in>set (butlast rest). run callback s = None"
      by simp_all
    with Cons.IH show ?thesis by simp
  qed
qed

lemma call_each_stops:
  "run c s = Some e \<Longrightarrow> call_each run s (c # rest) = ([Notified c s], Some e)"
  by simp

lemma call_each_quiet: "call_each quiet s cs = (map (\<lambda>callback. Notified callback s) cs, None)"
  by (rule call_each_returns) (simp add: quiet_def)


section \<open>undo and redo, field by field\<close>

lemma undo_empty:
  "past (history a) = [] \<Longrightarrow> undo run eng a = \<lparr>after = a, emitted = [], raised = None\<rparr>"
  by (simp add: undo_def)

lemma redo_empty:
  "future (history a) = [] \<Longrightarrow> redo run eng a = \<lparr>after = a, emitted = [], raised = None\<rparr>"
  by (simp add: redo_def)

lemma undo_step:
  assumes "past (history a) \<noteq> []"
  shows "state (after (undo run eng a)) =
           fst (applyPatches eng (state a) (inversePatches (last (past (history a)))))"
    and "past (history (after (undo run eng a))) = butlast (past (history a))"
    and "future (history (after (undo run eng a))) = future (history a) @
           [\<lparr>ck_state = state a,
             inversePatches =
               snd (applyPatches eng (state a) (inversePatches (last (past (history a)))))\<rparr>]"
  using assms by (simp_all add: undo_def Let_def split: prod.split)

lemma redo_step:
  assumes "future (history a) \<noteq> []"
  shows "state (after (redo run eng a)) =
           fst (applyPatches eng (state a) (inversePatches (last (future (history a)))))"
    and "future (history (after (redo run eng a))) = butlast (future (history a))"
    and "past (history (after (redo run eng a))) = past (history a) @
           [\<lparr>ck_state = state a,
             inversePatches =
               snd (applyPatches eng (state a) (inversePatches (last (future (history a)))))\<rparr>]"
  using assms by (simp_all add: redo_def Let_def split: prod.split)

lemma undo_frame:
  "subscribers (after (undo run eng a)) = subscribers a"
  "actor_id (after (undo run eng a)) = actor_id a"
  by (simp_all add: undo_def Let_def split: prod.split)

lemma redo_frame:
  "subscribers (after (redo run eng a)) = subscribers a"
  "actor_id (after (redo run eng a)) = actor_id a"
  by (simp_all add: redo_def Let_def split: prod.split)

lemma undo_redo_step:
  assumes law: "reverse_law eng" and ne: "past (history a) \<noteq> []"
  shows "state (after (redo run' eng (after (undo run eng a)))) = state a"
    and "future (history (after (redo run' eng (after (undo run eng a))))) = future (history a)"
proof -
  let ?b = "after (undo run eng a)"
  have f: "future (history ?b) \<noteq> []" using undo_step(3) [OF ne, of run eng] by simp
  have l: "inversePatches (last (future (history ?b))) =
      snd (applyPatches eng (state a) (inversePatches (last (past (history a)))))"
    using undo_step(3) [OF ne, of run eng] by simp
  show "state (after (redo run' eng ?b)) = state a"
    using law redo_step(1) [OF f, of run' eng] undo_step(1) [OF ne, of run eng] l
    by (simp add: reverse_law_def)
  show "future (history (after (redo run' eng ?b))) = future (history a)"
    using redo_step(2) [OF f, of run' eng] undo_step(3) [OF ne, of run eng] by simp
qed

lemma undo_times_Suc:
  "undo_times run eng (Suc n) a = undo_times run eng n (after (undo run eng a))"
  unfolding undo_times_def funpow_Suc_right by simp

lemma redo_times_Suc:
  "redo_times run eng (Suc n) a = after (redo run eng (redo_times run eng n a))"
  by (simp add: redo_times_def)

section \<open>What the past stack records\<close>

lemma rewind_snoc:
  "rewind eng (cs @ [c]) s = rewind eng cs (fst (applyPatches eng s (inversePatches c)))"
  by (simp add: rewind_def)

lemma rederived_all_snoc:
  "rederived_all eng (cs @ [c]) s =
     rederived_all eng cs (fst (applyPatches eng s (inversePatches c))) @ [rederived eng c s]"
  by (simp add: rederived_all_def)

lemma drop_snoc_last:
  assumes "xs \<noteq> []" and "k \<le> length xs - 1"
  shows "drop k xs = drop k (butlast xs) @ [last xs]"
proof -
  have "drop k (butlast xs @ [last xs]) = drop k (butlast xs) @ [last xs]"
    using assms(2) by simp
  with assms(1) show ?thesis by simp
qed

lemma undo_times_fields:
  "state (undo_times run eng k x) =
     rewind eng (drop (length (past (history x)) - k) (past (history x))) (state x) \<and>
   past (history (undo_times run eng k x)) =
     take (length (past (history x)) - k) (past (history x))"
proof (induction k arbitrary: x)
  case 0
  show ?case by (simp add: undo_times_def rewind_def)
next
  case (Suc k)
  let ?P = "past (history x)"
  show ?case
  proof (cases "?P = []")
    case True
    then show ?thesis
      unfolding undo_times_Suc using Suc.IH [of x] by (simp add: undo_empty)
  next
    case False
    let ?x' = "after (undo run eng x)"
    have p: "past (history ?x') = butlast ?P"
      and s: "state ?x' = fst (applyPatches eng (state x) (inversePatches (last ?P)))"
      using undo_step [OF False, of run eng] by simp_all
    have d: "drop (length ?P - Suc k) ?P = drop (length ?P - Suc k) (butlast ?P) @ [last ?P]"
      using False by (intro drop_snoc_last) simp_all
    have "state (undo_times run eng (Suc k) x) =
        rewind eng (drop (length ?P - Suc k) (butlast ?P)) (state ?x')"
      unfolding undo_times_Suc using Suc.IH [of ?x'] p by simp
    also have "\<dots> = rewind eng (drop (length ?P - Suc k) ?P) (state x)"
      unfolding d rewind_snoc s ..
    finally have 1: "state (undo_times run eng (Suc k) x) =
        rewind eng (drop (length ?P - Suc k) ?P) (state x)" .
    have "past (history (undo_times run eng (Suc k) x)) = take (length ?P - Suc k) (butlast ?P)"
      unfolding undo_times_Suc using Suc.IH [of ?x'] p by simp
    also have "\<dots> = take (length ?P - Suc k) ?P"
      using False by (simp add: butlast_conv_take)
    finally show ?thesis using 1 by simp
  qed
qed

lemma undo_times_state_cong:
  assumes "state x = state y" and "past (history x) = past (history y)"
  shows "state (undo_times run eng k x) = state (undo_times run' eng k y)"
  using undo_times_fields [of run eng k x] undo_times_fields [of run' eng k y] assms by simp

section \<open>sendMessage, by cases\<close>

lemma sendMessage_unknown:
  "\<not> isMessageTypeValid cls (type m) \<Longrightarrow>
     sendMessage run eng cls m a =
       \<lparr>after = a, emitted = [Warned (''Unknown message type: '' @ type m)], raised = None\<rparr>"
  by (simp add: sendMessage_def)

lemma sendMessage_raises:
  "isMessageTypeValid cls (type m) \<Longrightarrow> handleMessage cls (state a) m = Inl e \<Longrightarrow>
     sendMessage run eng cls m a = \<lparr>after = a, emitted = [], raised = Some e\<rparr>"
  by (simp add: sendMessage_def processMessage_def produceWithPatches_def)

lemma sendMessage_commits:
  "isMessageTypeValid cls (type m) \<Longrightarrow> handleMessage cls (state a) m = Inr d \<Longrightarrow>
     sendMessage run eng cls m a =
       \<lparr>after = a\<lparr>state := d,
                  history := \<lparr>past = past (history a) @
                      [\<lparr>ck_state = d, inversePatches = snd (derivePatches eng (state a) d)\<rparr>],
                    future = []\<rparr>\<rparr>,
        emitted = fst (call_each run d (subscribers a)),
        raised = snd (call_each run d (subscribers a))\<rparr>"
  by (cases "history a")
    (simp add: sendMessage_def processMessage_def produceWithPatches_def Let_def
      notifySubscribers_def split: prod.split)

lemma sendMessage_cases:
  obtains (unknown) "\<not> isMessageTypeValid cls (type m)"
  | (raises) e where "isMessageTypeValid cls (type m)" "handleMessage cls (state a) m = Inl e"
  | (commits) d where "isMessageTypeValid cls (type m)" "handleMessage cls (state a) m = Inr d"
  by (cases "handleMessage cls (state a) m") auto

lemma subscribers_subscribe_all:
  "subscribers (subscribe_all callbacks a) = subscribers a @ callbacks"
  "state (subscribe_all callbacks a) = state a"
  by (induction callbacks arbitrary: a) (simp_all add: subscribe_all_def subscribe_def)

lemma rewind_sendMessage:
  assumes "inverse_law eng"
  shows "rewind eng (past (history (after (sendMessage run eng cls m a))))
           (state (after (sendMessage run eng cls m a))) =
         rewind eng (past (history a)) (state a)"
proof (cases rule: sendMessage_cases [where cls = cls and m = m and a = a])
  case unknown
  then show ?thesis by (simp add: sendMessage_unknown)
next
  case (raises e)
  then show ?thesis by (simp add: sendMessage_raises)
next
  case (commits d)
  with assms show ?thesis
    by (simp add: sendMessage_commits rewind_snoc inverse_law_def)
qed

lemma length_past_sendMessage:
  "length (past (history (after (sendMessage run eng cls m a)))) \<le>
     Suc (length (past (history a)))"
  by (cases rule: sendMessage_cases [where cls = cls and m = m and a = a])
    (simp_all add: sendMessage_unknown sendMessage_raises sendMessage_commits)

lemma dispatch_all_Cons:
  "dispatch_all run eng cls (m # ms) a =
     dispatch_all run eng cls ms (after (sendMessage run eng cls m a))"
  by (simp add: dispatch_all_def)

lemma rewind_dispatch_all:
  assumes "inverse_law eng"
  shows "rewind eng (past (history (dispatch_all run eng cls ms a)))
           (state (dispatch_all run eng cls ms a)) =
         rewind eng (past (history a)) (state a)"
proof (induction ms arbitrary: a)
  case Nil
  show ?case by (simp add: dispatch_all_def)
next
  case (Cons m ms)
  show ?case
    unfolding dispatch_all_Cons using Cons.IH rewind_sendMessage [OF assms] by simp
qed

lemma length_past_dispatch_all:
  "length (past (history (dispatch_all run eng cls ms a))) \<le>
     length ms + length (past (history a))"
proof (induction ms arbitrary: a)
  case Nil
  show ?case by (simp add: dispatch_all_def)
next
  case (Cons m ms)
  have "length (past (history (dispatch_all run eng cls (m # ms) a))) \<le>
      length ms + length (past (history (after (sendMessage run eng cls m a))))"
    unfolding dispatch_all_Cons by (rule Cons.IH)
  also have "\<dots> \<le> length ms + Suc (length (past (history a)))"
    using length_past_sendMessage [of run eng cls m a] by simp
  finally show ?case by simp
qed

lemma dispatch_undo_from_empty_past:
  assumes law: "inverse_law eng" and emp: "past (history a) = []"
  shows "state (undo_times run' eng (length ms) (dispatch_all run eng cls ms a)) = state a \<and>
         past (history (undo_times run' eng (length ms) (dispatch_all run eng cls ms a))) = []"
proof -
  define b where "b = dispatch_all run eng cls ms a"
  have le: "length (past (history b)) \<le> length ms"
    unfolding b_def using length_past_dispatch_all [of run eng cls ms a] emp by simp
  have "state (undo_times run' eng (length ms) b) = rewind eng (past (history b)) (state b)"
    using undo_times_fields [of run' eng "length ms" b] le by simp
  also have "\<dots> = rewind eng (past (history a)) (state a)"
    unfolding b_def by (rule rewind_dispatch_all [OF law])
  finally have "state (undo_times run' eng (length ms) b) = state a"
    using emp by (simp add: rewind_def)
  moreover have "past (history (undo_times run' eng (length ms) b)) = []"
    using undo_times_fields [of run' eng "length ms" b] le by simp
  ultimately show ?thesis unfolding b_def by simp
qed

section \<open>Evaluating the counter\<close>

lemmas run_defs =
  new_Actor_def sendMessage_def processMessage_def produceWithPatches_def
  notifySubscribers_def undo_def redo_def undo_times_def redo_times_def dispatch_all_def
  subscribe_def unsubscribe_def Let_def

lemmas counter_defs =
  counter0_def msg_def counterBehaviour_def counterEngine_def counter_derive_def
  replace_count_def

lemma counter1_eval:
  "counter1 = \<lparr>actor_id = ''counter'', state = \<lparr>count = 1\<rparr>, subscribers = [],
     history = \<lparr>past = [\<lparr>ck_state = \<lparr>count = 1\<rparr>, inversePatches = [replace_count 0]\<rparr>],
                future = []\<rparr>\<rparr>"
  by (simp add: counter1_def run_defs counter_defs)

lemma counter1_undone_eval:
  "counter1_undone = \<lparr>actor_id = ''counter'', state = \<lparr>count = 0\<rparr>, subscribers = [],
     history = \<lparr>past = [],
                future = [\<lparr>ck_state = \<lparr>count = 1\<rparr>, inversePatches = [replace_count 1]\<rparr>]\<rparr>\<rparr>"
  by (simp add: counter1_undone_def counter1_eval undo_def Let_def counterEngine_def
      replace_count_def)

lemma counter1_redone_eval:
  "after (redo run counterEngine counter1_undone) =
     \<lparr>actor_id = ''counter'', state = \<lparr>count = 1\<rparr>, subscribers = [],
      history = \<lparr>past = [\<lparr>ck_state = \<lparr>count = 0\<rparr>, inversePatches = [replace_count 0]\<rparr>],
                 future = []\<rparr>\<rparr>"
  by (simp add: counter1_undone_eval redo_def Let_def counterEngine_def replace_count_def)

lemma counter2_eval:
  "counter2 = \<lparr>actor_id = ''counter'', state = \<lparr>count = 2\<rparr>, subscribers = [],
     history = \<lparr>past = [\<lparr>ck_state = \<lparr>count = 1\<rparr>, inversePatches = [replace_count 0]\<rparr>,
                        \<lparr>ck_state = \<lparr>count = 2\<rparr>, inversePatches = [replace_count 1]\<rparr>],
                future = []\<rparr>\<rparr>"
  by (simp add: counter2_def run_defs counter_defs)

lemma added1_eval:
  "added1 = \<lparr>actor_id = ''counter'', state = \<lparr>count = 1\<rparr>, subscribers = [],
     history = \<lparr>past = [\<lparr>ck_state = \<lparr>count = 1\<rparr>, inversePatches = [replace_count 0]\<rparr>],
                future = []\<rparr>\<rparr>"
  by (simp add: added1_def run_defs counter_defs addingEngine_def)

lemma added1_redone_eval:
  "after (redo run' addingEngine (after (undo run addingEngine added1))) =
     \<lparr>actor_id = ''counter'', state = \<lparr>count = 1\<rparr>, subscribers = [],
      history = \<lparr>past = [\<lparr>ck_state = \<lparr>count = 0\<rparr>, inversePatches = [add_count 0]\<rparr>],
                 future = []\<rparr>\<rparr>"
  by (simp add: added1_eval undo_def redo_def Let_def addingEngine_def replace_count_def
      add_count_def)

lemma watched_eval:
  "watched = \<lparr>actor_id = ''counter'', state = \<lparr>count = 0\<rparr>, subscribers = [1, 2],
     history = \<lparr>past = [], future = []\<rparr>\<rparr>"
  by (simp add: watched_def run_defs counter_defs)

lemma watched_undone_eval:
  "watched_undone = \<lparr>actor_id = ''counter'', state = \<lparr>count = 0\<rparr>, subscribers = [1, 2],
     history = \<lparr>past = [],
                future = [\<lparr>ck_state = \<lparr>count = 1\<rparr>, inversePatches = [replace_count 1]\<rparr>]\<rparr>\<rparr>"
  by (simp add: watched_undone_def watched_eval run_defs counter_defs)


lemma counter_valid:
  "isMessageTypeValid counterBehaviour (type (msg ''increment''))"
  "isMessageTypeValid counterBehaviour (type (msg ''noop''))"
  "isMessageTypeValid counterBehaviour (type (msg ''fail''))"
  "\<not> isMessageTypeValid counterBehaviour (type (msg ''decrement''))"
  by (simp_all add: counterBehaviour_def msg_def)

lemma counter_handle:
  "handleMessage counterBehaviour s (msg ''increment'') = Inr (s\<lparr>count := count s + 1\<rparr>)"
  "handleMessage counterBehaviour s (msg ''noop'') = Inr s"
  "handleMessage counterBehaviour s (msg ''fail'') = Inl ''cannot handle''"
  by (simp_all add: counterBehaviour_def msg_def)

text \<open>Both engines have both required properties.\<close>

lemma counter_apply_append:
  "fst (counter_apply s (xs @ ys)) = fst (counter_apply (fst (counter_apply s xs)) ys)"
  by (induction xs arbitrary: s) auto

lemma counter_apply_reverse:
  "fst (counter_apply (fst (counter_apply s ps)) (snd (counter_apply s ps))) = s"
  by (induction ps arbitrary: s) (auto simp: counter_apply_append replace_count_def)

lemma counter_reverse_law: "reverse_law counterEngine"
  by (simp add: reverse_law_def counterEngine_def counter_apply_reverse)

lemma counter_inverse_law: "inverse_law counterEngine"
  by (simp add: inverse_law_def counterEngine_def counter_derive_def replace_count_def)

lemma adding_apply_append:
  "fst (adding_apply s (xs @ ys)) = fst (adding_apply (fst (adding_apply s xs)) ys)"
  by (induction xs arbitrary: s) auto

lemma adding_apply_reverse:
  "fst (adding_apply (fst (adding_apply s ps)) (snd (adding_apply s ps))) = s"
  by (induction ps arbitrary: s) (auto simp: adding_apply_append add_count_def)

lemma adding_reverse_law: "reverse_law addingEngine"
  by (simp add: reverse_law_def addingEngine_def adding_apply_reverse)

lemma adding_inverse_law: "inverse_law addingEngine"
  by (simp add: inverse_law_def addingEngine_def counter_derive_def replace_count_def)

section \<open>The claims\<close>

text \<open>
  Claim C1, as amended. For every actor and every \<open>n\<close> not exceeding the length of
  \<open>history.past\<close>, on an engine whose replays are reversible, \<open>n\<close> calls of
  \<open>undo\<close> followed by \<open>n\<close> calls of \<open>redo\<close> restore exactly the state and
  exactly the \<open>future\<close> stack. The \<open>past\<close> stack has its length again and its
  entries below the top \<open>n\<close> are the same. Its top \<open>n\<close> entries are rebuilt by
  \<open>redo\<close> (line 143): the patch set of each is the one the engine re-derives, the
  reverse of the replay that \<open>redo\<close> makes (\<open>rederived_all\<close>), and any number of
  further calls of \<open>undo\<close> lead to the same states as they did before. The subscribers
  and the id are untouched, whatever the subscribers do when they are called. Nothing is
  said of the state recorded in the rebuilt entries.
\<close>

theorem undo_redo_times_restores:
  assumes law: "reverse_law eng"
  shows "n \<le> length (past (history a)) \<Longrightarrow>
    state (redo_times run eng n (undo_times run eng n a)) = state a \<and>
    future (history (redo_times run eng n (undo_times run eng n a))) = future (history a) \<and>
    length (past (history (redo_times run eng n (undo_times run eng n a)))) =
      length (past (history a)) \<and>
    take (length (past (history a)) - n)
        (past (history (redo_times run eng n (undo_times run eng n a)))) =
      take (length (past (history a)) - n) (past (history a)) \<and>
    map inversePatches (drop (length (past (history a)) - n)
        (past (history (redo_times run eng n (undo_times run eng n a))))) =
      rederived_all eng (drop (length (past (history a)) - n) (past (history a))) (state a) \<and>
    (\<forall>k. state (undo_times run eng k (redo_times run eng n (undo_times run eng n a))) =
          state (undo_times run eng k a)) \<and>
    subscribers (redo_times run eng n (undo_times run eng n a)) = subscribers a \<and>
    actor_id (redo_times run eng n (undo_times run eng n a)) = actor_id a"
proof (induction n arbitrary: a)
  case 0
  then show ?case by (simp add: undo_times_def redo_times_def rederived_all_def)
next
  case (Suc n)
  let ?P = "past (history a)"
  let ?L = "length ?P"
  let ?a' = "after (undo run eng a)"
  let ?b = "redo_times run eng n (undo_times run eng n ?a')"
  let ?u = "applyPatches eng (state a) (inversePatches (last ?P))"
  let ?e = "\<lparr>ck_state = state ?b,
      inversePatches =
        snd (applyPatches eng (state ?b) (inversePatches (last (future (history ?b)))))\<rparr>"
  from Suc.prems have ne: "?P \<noteq> []" by auto
  have p': "past (history ?a') = butlast ?P"
    and s': "state ?a' = fst ?u"
    and f': "future (history ?a') = future (history a) @
               [\<lparr>ck_state = state a, inversePatches = snd ?u\<rparr>]"
    using undo_step [OF ne, of run eng] by simp_all
  from Suc.prems p' have le: "n \<le> length (past (history ?a'))" by simp
  note ih = Suc.IH [OF le]
  from ih s' have sb: "state ?b = fst ?u" by simp
  from ih f' have fb: "future (history ?b) \<noteq> []"
    and lb: "last (future (history ?b)) = \<lparr>ck_state = state a, inversePatches = snd ?u\<rparr>"
    and bb: "butlast (future (history ?b)) = future (history a)"
    by simp_all
  have roundtrip: "fst (applyPatches eng (fst ?u) (snd ?u)) = state a"
    using law by (simp add: reverse_law_def)
  have whole: "redo_times run eng (Suc n) (undo_times run eng (Suc n) a) =
      after (redo run eng ?b)"
    by (simp add: undo_times_Suc redo_times_Suc)
  have st: "state (after (redo run eng ?b)) = state a"
    using redo_step(1) [OF fb, of run eng] sb lb roundtrip by simp
  have fu: "future (history (after (redo run eng ?b))) = future (history a)"
    using redo_step(2) [OF fb, of run eng] bb by simp
  have pa: "past (history (after (redo run eng ?b))) = past (history ?b) @ [?e]"
    using redo_step(3) [OF fb, of run eng] by simp
  have ie: "inversePatches ?e = rederived eng (last ?P) (state a)"
    using sb lb by (simp add: rederived_def)
  have lenb: "length (past (history ?b)) = ?L - 1"
    using ih p' by simp
  have len: "length (past (history (after (redo run eng ?b)))) = ?L"
    using pa lenb ne by simp
  have tk: "take (?L - Suc n) (past (history (after (redo run eng ?b)))) =
      take (?L - Suc n) ?P"
  proof -
    have "take (?L - Suc n) (past (history (after (redo run eng ?b)))) =
        take (?L - Suc n) (past (history ?b))"
      using pa lenb by simp
    also have "\<dots> = take (?L - Suc n) (butlast ?P)"
      using ih p' by simp
    also have "\<dots> = take (?L - Suc n) ?P"
      using ne by (simp add: butlast_conv_take)
    finally show ?thesis .
  qed
  have dr: "map inversePatches (drop (?L - Suc n) (past (history (after (redo run eng ?b))))) =
      rederived_all eng (drop (?L - Suc n) ?P) (state a)"
  proof -
    have "drop (?L - Suc n) (past (history (after (redo run eng ?b)))) =
        drop (?L - Suc n) (past (history ?b)) @ [?e]"
      using pa lenb by simp
    then have "map inversePatches (drop (?L - Suc n) (past (history (after (redo run eng ?b))))) =
        map inversePatches (drop (?L - Suc n) (past (history ?b))) @
          [rederived eng (last ?P) (state a)]"
      using ie by simp
    also have "map inversePatches (drop (?L - Suc n) (past (history ?b))) =
        rederived_all eng (drop (?L - Suc n) (butlast ?P)) (fst ?u)"
      using ih p' s' by simp
    also have "rederived_all eng (drop (?L - Suc n) (butlast ?P)) (fst ?u) @
          [rederived eng (last ?P) (state a)] =
        rederived_all eng (drop (?L - Suc n) (butlast ?P) @ [last ?P]) (state a)"
      by (simp add: rederived_all_snoc)
    also have "drop (?L - Suc n) (butlast ?P) @ [last ?P] = drop (?L - Suc n) ?P"
      using ne by (intro drop_snoc_last [symmetric]) simp_all
    finally show ?thesis .
  qed
  have un: "state (undo_times run eng k (after (redo run eng ?b))) =
      state (undo_times run eng k a)" for k
  proof (cases k)
    case 0
    then show ?thesis using st by (simp add: undo_times_def)
  next
    case (Suc j)
    let ?c = "after (undo run eng (after (redo run eng ?b)))"
    have nb: "past (history (after (redo run eng ?b))) \<noteq> []" using pa by simp
    have "fst (applyPatches eng (state a) (rederived eng (last ?P) (state a))) = fst ?u"
      using law roundtrip unfolding rederived_def reverse_law_def by metis
    then have sc: "state ?c = state ?b"
      using undo_step(1) [OF nb, of run eng] pa st ie sb by simp
    have pc: "past (history ?c) = past (history ?b)"
      using undo_step(2) [OF nb, of run eng] pa by simp
    have "state (undo_times run eng (Suc j) (after (redo run eng ?b))) =
        state (undo_times run eng j ?c)"
      by (simp add: undo_times_Suc)
    also have "\<dots> = state (undo_times run eng j ?b)"
      using sc pc by (rule undo_times_state_cong)
    also have "\<dots> = state (undo_times run eng j ?a')"
      using ih by simp
    also have "\<dots> = state (undo_times run eng (Suc j) a)"
      by (simp add: undo_times_Suc)
    finally show ?thesis using Suc by simp
  qed
  have fr: "subscribers (after (redo run eng ?b)) = subscribers a"
      "actor_id (after (redo run eng ?b)) = actor_id a"
    using ih by (simp_all add: redo_frame undo_frame)
  show ?case unfolding whole using st fu len tk dr un fr by simp
qed

text \<open>
  The counter after two increments, two undos and two redos: both entries of \<open>past\<close>
  are rebuilt, with the patch sets they had.
\<close>

theorem undo_redo_times_restores_witness:
  "(2::nat) \<le> length (past (history counter2)) \<and>
   (state (redo_times quiet counterEngine 2 (undo_times quiet counterEngine 2 counter2)) =
      state counter2 \<and>
    future (history (redo_times quiet counterEngine 2 (undo_times quiet counterEngine 2 counter2))) =
      future (history counter2) \<and>
    length (past (history
        (redo_times quiet counterEngine 2 (undo_times quiet counterEngine 2 counter2)))) =
      length (past (history counter2)) \<and>
    take (length (past (history counter2)) - 2)
        (past (history
          (redo_times quiet counterEngine 2 (undo_times quiet counterEngine 2 counter2)))) =
      take (length (past (history counter2)) - 2) (past (history counter2)) \<and>
    map inversePatches (drop (length (past (history counter2)) - 2)
        (past (history
          (redo_times quiet counterEngine 2 (undo_times quiet counterEngine 2 counter2))))) =
      rederived_all counterEngine
        (drop (length (past (history counter2)) - 2) (past (history counter2))) (state counter2) \<and>
    (\<forall>k. state (undo_times quiet counterEngine k
            (redo_times quiet counterEngine 2 (undo_times quiet counterEngine 2 counter2))) =
          state (undo_times quiet counterEngine k counter2)) \<and>
    subscribers (redo_times quiet counterEngine 2 (undo_times quiet counterEngine 2 counter2)) =
      subscribers counter2 \<and>
    actor_id (redo_times quiet counterEngine 2 (undo_times quiet counterEngine 2 counter2)) =
      actor_id counter2) \<and>
   rederived_all counterEngine
       (drop (length (past (history counter2)) - 2) (past (history counter2))) (state counter2) =
     [[replace_count 0], [replace_count 1]]"
proof -
  have h: "(2::nat) \<le> length (past (history counter2))" by (simp add: counter2_eval)
  note c = undo_redo_times_restores [OF counter_reverse_law h, where run = quiet]
  have r: "rederived_all counterEngine
       (drop (length (past (history counter2)) - 2) (past (history counter2))) (state counter2) =
     [[replace_count 0], [replace_count 1]]"
    by (simp add: counter2_eval rederived_all_def rederived_def counterEngine_def
        replace_count_def)
  show ?thesis using conjI [OF h conjI [OF c r]] .
qed

text \<open>
  The claim as stated fails after one increment, with \<open>n = 1\<close>. On the second engine,
  which has both required properties, the rebuilt entry has another patch set than the
  entry that was there: \<open>add\<close> where \<open>replace\<close> was. On the first engine the patch
  set is the same and the entry still differs, in the state it records.
\<close>

theorem undo_redo_exact_stacks_counterexample:
  "reverse_law addingEngine \<and> inverse_law addingEngine \<and>
   (1::nat) \<le> length (past (history added1)) \<and>
   map inversePatches (past (history
       (redo_times quiet addingEngine 1 (undo_times quiet addingEngine 1 added1)))) \<noteq>
     map inversePatches (past (history added1)) \<and>
   \<not> (state (redo_times quiet addingEngine 1 (undo_times quiet addingEngine 1 added1)) =
        state added1 \<and>
      past (history (redo_times quiet addingEngine 1 (undo_times quiet addingEngine 1 added1))) =
        past (history added1) \<and>
      future (history (redo_times quiet addingEngine 1 (undo_times quiet addingEngine 1 added1))) =
        future (history added1)) \<and>
   (1::nat) \<le> length (past (history counter1)) \<and>
   map inversePatches (past (history
       (redo_times quiet counterEngine 1 (undo_times quiet counterEngine 1 counter1)))) =
     map inversePatches (past (history counter1)) \<and>
   past (history (redo_times quiet counterEngine 1 (undo_times quiet counterEngine 1 counter1))) \<noteq>
     past (history counter1)"
proof -
  have a: "redo_times quiet addingEngine 1 (undo_times quiet addingEngine 1 added1) =
      after (redo quiet addingEngine (after (undo quiet addingEngine added1)))"
    by (simp add: redo_times_def undo_times_def)
  have c: "redo_times quiet counterEngine 1 (undo_times quiet counterEngine 1 counter1) =
      after (redo quiet counterEngine counter1_undone)"
    by (simp add: redo_times_def undo_times_def counter1_undone_def)
  show ?thesis
    unfolding a c added1_redone_eval counter1_redone_eval
    by (simp add: adding_reverse_law adding_inverse_law added1_eval counter1_eval
        replace_count_def add_count_def)
qed

text \<open>
  Claim C2. On an engine whose inverse patch sets lead back to the base state: after any
  list of \<open>n\<close> messages has been dispatched to a freshly constructed actor, \<open>n\<close> calls
  of \<open>undo\<close> yield the initial state and an empty \<open>past\<close> stack, whatever the
  subscribers do. The messages need not even be valid: a dispatch that is refused or whose
  handler raises leaves the actor as it was, and \<open>undo\<close> on an empty \<open>past\<close> does
  nothing.
\<close>

theorem dispatch_then_undo_all:
  fixes eng :: "('s, 'p) engine" and a0 :: "('s, 'c, 'p) Actor"
  assumes "inverse_law eng" and "a0 = new_Actor i s0"
  shows "state (undo_times run eng (length ms) (dispatch_all run eng cls ms a0)) = s0 \<and>
         past (history (undo_times run eng (length ms) (dispatch_all run eng cls ms a0))) = []"
  using dispatch_undo_from_empty_past [OF assms(1), of a0 run ms run cls] assms(2)
  by (simp add: new_Actor_def)

theorem dispatch_then_undo_all_witness:
  "state (undo_times quiet counterEngine
     (length [msg ''increment'', msg ''noop'', msg ''increment''])
     (dispatch_all quiet counterEngine counterBehaviour
        [msg ''increment'', msg ''noop'', msg ''increment''] counter0)) = \<lparr>count = 0\<rparr> \<and>
   past (history (undo_times quiet counterEngine
     (length [msg ''increment'', msg ''noop'', msg ''increment''])
     (dispatch_all quiet counterEngine counterBehaviour
        [msg ''increment'', msg ''noop'', msg ''increment''] counter0))) = []"
  using dispatch_then_undo_all [OF counter_inverse_law counter0_def] .

text \<open>
  Claim C3 says that, whenever \<open>past\<close> is not empty, the state recorded in its top
  entry is the actor's current state, in particular after \<open>redo\<close>. The code does not
  keep this after \<open>redo\<close>: \<open>processMessage\<close> assigns the new state (line 96) and
  then pushes \<open>this.state\<close> (line 103), the state reached; \<open>redo\<close> pushes
  \<open>this.state\<close> (line 143) and then assigns the new state (line 144), so its entry
  records the state before the redo. On the counter, after one increment, \<open>undo\<close> and
  \<open>redo\<close>, the state is \<open>{count: 1}\<close> and the top entry records \<open>{count: 0}\<close>.
\<close>

theorem redo_records_state_before_redo:
  "past (history (after (redo quiet counterEngine (after (undo quiet counterEngine counter1))))) \<noteq> [] \<and>
   state (after (redo quiet counterEngine (after (undo quiet counterEngine counter1)))) =
     \<lparr>count = 1\<rparr> \<and>
   ck_state (last (past (history
     (after (redo quiet counterEngine (after (undo quiet counterEngine counter1))))))) =
     \<lparr>count = 0\<rparr> \<and>
   ck_state (last (past (history counter1))) = state counter1"
  using counter1_redone_eval [of quiet] by (simp add: counter1_undone_def counter1_eval)

text \<open>
  Claim C4. For every actor with a non-empty \<open>past\<close>, on an engine whose replays are
  reversible, \<open>undo\<close> followed by \<open>redo\<close> yields the state the actor held before the
  \<open>undo\<close>, whatever the subscribers do.
\<close>

theorem undo_then_redo_restores_state:
  assumes "reverse_law eng" and "past (history a) \<noteq> []"
  shows "state (after (redo run eng (after (undo run eng a)))) = state a"
  using assms by (rule undo_redo_step(1))

theorem undo_then_redo_restores_state_witness:
  "past (history counter2) \<noteq> [] \<and>
   state (after (redo quiet counterEngine (after (undo quiet counterEngine counter2)))) =
     state counter2"
proof -
  have h: "past (history counter2) \<noteq> []" by (simp add: counter2_eval)
  show ?thesis
    using h undo_then_redo_restores_state [OF counter_reverse_law h, where run = quiet]
    by simp
qed

text \<open>
  Claim C5. After every state change produced by dispatching a valid message, that is,
  after every call of \<open>sendMessage\<close> with a valid message on which the handler returns,
  so that the new state is assigned (line 96), \<open>history.future\<close> is empty, whatever it
  was before and whatever the subscribers do, and a \<open>redo\<close> that follows changes
  nothing, notifies nobody and raises nothing.
\<close>

theorem dispatch_clears_future:
  assumes "isMessageTypeValid cls (type m)" and "handleMessage cls (state a) m = Inr d"
  shows "future (history (after (sendMessage run eng cls m a))) = [] \<and>
         redo run eng (after (sendMessage run eng cls m a)) =
           \<lparr>after = after (sendMessage run eng cls m a), emitted = [], raised = None\<rparr>"
  using assms by (simp add: sendMessage_commits redo_empty)

text \<open>
  The counter whose increment was undone has a non-empty \<open>future\<close>; subscriber 1
  raises when it is notified of the new state.
\<close>

theorem dispatch_clears_future_witness:
  "future (history watched_undone) \<noteq> [] \<and>
   isMessageTypeValid counterBehaviour (type (msg ''increment'')) \<and>
   handleMessage counterBehaviour (state watched_undone) (msg ''increment'') = Inr \<lparr>count = 1\<rparr> \<and>
   raised (sendMessage first_fails counterEngine counterBehaviour (msg ''increment'')
     watched_undone) = Some ''subscriber failed'' \<and>
   future (history (after (sendMessage first_fails counterEngine counterBehaviour
     (msg ''increment'') watched_undone))) = [] \<and>
   redo first_fails counterEngine (after (sendMessage first_fails counterEngine counterBehaviour
     (msg ''increment'') watched_undone)) =
     \<lparr>after = after (sendMessage first_fails counterEngine counterBehaviour (msg ''increment'')
        watched_undone),
      emitted = [], raised = None\<rparr>"
proof -
  have f: "future (history watched_undone) \<noteq> []" by (simp add: watched_undone_eval)
  have h: "handleMessage counterBehaviour (state watched_undone) (msg ''increment'') =
      Inr \<lparr>count = 1\<rparr>"
    by (simp add: counter_handle watched_undone_eval)
  have r: "raised (sendMessage first_fails counterEngine counterBehaviour (msg ''increment'')
      watched_undone) = Some ''subscriber failed''"
    unfolding sendMessage_commits [OF counter_valid(1) h]
    by (simp add: watched_undone_eval first_fails_def)
  note c = dispatch_clears_future [OF counter_valid(1) h,
      where run = first_fails and eng = counterEngine]
  show ?thesis using conjI [OF f conjI [OF counter_valid(1) conjI [OF h conjI [OF r c]]]] .
qed

text \<open>
  Claim C6. If \<open>handleMessage\<close> raises on a valid message, \<open>sendMessage\<close> raises the
  same error, the actor (its state, \<open>past\<close>, \<open>future\<close> and subscribers) is unchanged,
  and no subscriber is notified.
\<close>

theorem handler_error_aborts_dispatch:
  assumes "isMessageTypeValid cls (type m)" and "handleMessage cls (state a) m = Inl e"
  shows "sendMessage run eng cls m a = \<lparr>after = a, emitted = [], raised = Some e\<rparr>"
  using assms by (rule sendMessage_raises)

theorem handler_error_aborts_dispatch_witness:
  "isMessageTypeValid counterBehaviour (type (msg ''fail'')) \<and>
   handleMessage counterBehaviour (state watched_undone) (msg ''fail'') = Inl ''cannot handle'' \<and>
   sendMessage quiet counterEngine counterBehaviour (msg ''fail'') watched_undone =
     \<lparr>after = watched_undone, emitted = [], raised = Some ''cannot handle''\<rparr>"
  using handler_error_aborts_dispatch [OF counter_valid(3) counter_handle(3),
      where a = watched_undone and eng = counterEngine and run = quiet]
    counter_valid(3) counter_handle(3) [of "state watched_undone"] by simp

text \<open>
  Claim C7. For every message whose type \<open>isMessageTypeValid\<close> does not recognise,
  \<open>sendMessage\<close> raises nothing and leaves the actor (state, \<open>past\<close>, \<open>future\<close>,
  subscribers) unchanged; the only event of the call is the warning, so no subscriber is
  notified.
\<close>

theorem unknown_message_is_inert:
  assumes "\<not> isMessageTypeValid cls (type m)"
  shows "after (sendMessage run eng cls m a) = a \<and>
         raised (sendMessage run eng cls m a) = None \<and>
         emitted (sendMessage run eng cls m a) =
           [Warned (''Unknown message type: '' @ type m)]"
  using assms by (simp add: sendMessage_unknown)

theorem unknown_message_is_inert_witness:
  "\<not> isMessageTypeValid counterBehaviour (type (msg ''decrement'')) \<and>
   after (sendMessage first_fails counterEngine counterBehaviour (msg ''decrement'')
     watched_undone) = watched_undone \<and>
   raised (sendMessage first_fails counterEngine counterBehaviour (msg ''decrement'')
     watched_undone) = None \<and>
   emitted (sendMessage first_fails counterEngine counterBehaviour (msg ''decrement'')
     watched_undone) = [Warned ''Unknown message type: decrement'']"
  using unknown_message_is_inert [OF counter_valid(4),
      where a = watched_undone and eng = counterEngine and run = first_fails]
    counter_valid(4) by (simp add: msg_def)

text \<open>
  Claim C8, as amended. For every dispatch of a valid message on which \<open>handleMessage\<close>
  returns without raising and no subscriber other than the last one raises, the callbacks
  subscribed before the dispatch (here: those the actor had, followed by \<open>callbacks\<close>,
  subscribed in this order) are each called exactly once, in the order in which they
  subscribed, each with the state after the transition.
\<close>

theorem subscribers_notified_in_order:
  assumes "isMessageTypeValid cls (type m)" and "handleMessage cls (state a) m = Inr d"
    and "\<forall>callback\<in>set (butlast (subscribers a @ callbacks)). run callback d = None"
  shows "emitted (sendMessage run eng cls m (subscribe_all callbacks a)) =
           map (\<lambda>callback. Notified callback d) (subscribers a @ callbacks) \<and>
         state (after (sendMessage run eng cls m (subscribe_all callbacks a))) = d"
proof -
  have h: "handleMessage cls (state (subscribe_all callbacks a)) m = Inr d"
    using assms(2) by (simp add: subscribers_subscribe_all)
  have "fst (call_each run d (subscribers a @ callbacks)) =
      map (\<lambda>callback. Notified callback d) (subscribers a @ callbacks)"
    using assms(3) by (rule call_each_all_called)
  then show ?thesis
    unfolding sendMessage_commits [OF assms(1) h] by (simp add: subscribers_subscribe_all)
qed

text \<open>
  Subscriber 2 and then subscriber 1 subscribe to the fresh counter; subscriber 1, the
  last, raises when it is called.
\<close>

theorem subscribers_notified_in_order_witness:
  "isMessageTypeValid counterBehaviour (type (msg ''increment'')) \<and>
   handleMessage counterBehaviour (state counter0) (msg ''increment'') = Inr \<lparr>count = 1\<rparr> \<and>
   butlast (subscribers counter0 @ [2, 1]) = [2] \<and>
   first_fails 2 \<lparr>count = 1\<rparr> = None \<and>
   first_fails 1 \<lparr>count = 1\<rparr> = Some ''subscriber failed'' \<and>
   emitted (sendMessage first_fails counterEngine counterBehaviour (msg ''increment'')
       (subscribe_all [2, 1] counter0)) =
     [Notified 2 \<lparr>count = 1\<rparr>, Notified 1 \<lparr>count = 1\<rparr>] \<and>
   state (after (sendMessage first_fails counterEngine counterBehaviour (msg ''increment'')
       (subscribe_all [2, 1] counter0))) = \<lparr>count = 1\<rparr>"
proof -
  have h: "handleMessage counterBehaviour (state counter0) (msg ''increment'') = Inr \<lparr>count = 1\<rparr>"
    by (simp add: counter_handle counter0_def new_Actor_def)
  have s: "subscribers counter0 = []" by (simp add: counter0_def new_Actor_def)
  have q: "\<forall>callback\<in>set (butlast (subscribers counter0 @ [2, 1])).
      first_fails callback \<lparr>count = 1\<rparr> = None"
    by (simp add: s first_fails_def)
  show ?thesis
    using subscribers_notified_in_order [where run = first_fails and eng = counterEngine
        and callbacks = "[2, 1]" and a = counter0, OF counter_valid(1) h q]
      counter_valid(1) h s
    by (simp add: first_fails_def)
qed

text \<open>
  The claim as stated, for every dispatch of a valid message, fails when the handler
  raises: the message \<open>fail\<close> is valid, the actor has two subscribers, and none is
  called. It also fails when the handler returns and a subscriber raises: subscriber 1
  raises, and subscriber 2, registered after it, is not called.
\<close>

theorem every_dispatch_notifies_counterexample:
  "isMessageTypeValid counterBehaviour (type (msg ''fail'')) \<and>
   subscribers watched = [1, 2] \<and>
   emitted (sendMessage quiet counterEngine counterBehaviour (msg ''fail'') watched) = [] \<and>
   emitted (sendMessage quiet counterEngine counterBehaviour (msg ''fail'') watched) \<noteq>
     map (\<lambda>callback. Notified callback
            (state (after (sendMessage quiet counterEngine counterBehaviour (msg ''fail'') watched))))
       (subscribers watched) \<and>
   isMessageTypeValid counterBehaviour (type (msg ''increment'')) \<and>
   handleMessage counterBehaviour (state watched) (msg ''increment'') = Inr \<lparr>count = 1\<rparr> \<and>
   state (after (sendMessage first_fails counterEngine counterBehaviour (msg ''increment'')
     watched)) = \<lparr>count = 1\<rparr> \<and>
   emitted (sendMessage first_fails counterEngine counterBehaviour (msg ''increment'') watched) =
     [Notified 1 \<lparr>count = 1\<rparr>] \<and>
   raised (sendMessage first_fails counterEngine counterBehaviour (msg ''increment'') watched) =
     Some ''subscriber failed''"
proof -
  have h: "handleMessage counterBehaviour (state watched) (msg ''increment'') = Inr \<lparr>count = 1\<rparr>"
    by (simp add: counter_handle watched_eval)
  show ?thesis
    unfolding sendMessage_raises [OF counter_valid(3) counter_handle(3)]
      sendMessage_commits [OF counter_valid(1) h]
    using h by (simp add: watched_eval counter_valid first_fails_def)
qed

text \<open>
  Claim C9, as amended. For every message whose type is valid and on which
  \<open>handleMessage\<close> returns without raising, \<open>sendMessage\<close> pushes exactly one
  checkpoint onto \<open>past\<close> and clears \<open>future\<close>, whatever the subscribers do, and it
  notifies all subscribers with the new state unless a subscriber other than the last one
  raises; it raises nothing when no subscriber raises. No condition is put on the edits:
  a handler that edits nothing (\<open>d = state a\<close>) still grows \<open>past\<close> by one, clears
  \<open>future\<close> and notifies, with the state unchanged.
\<close>

theorem valid_message_pushes_one_checkpoint:
  assumes "isMessageTypeValid cls (type m)" and "handleMessage cls (state a) m = Inr d"
  shows "after (sendMessage run eng cls m a) =
           a\<lparr>state := d,
             history := \<lparr>past = past (history a) @
                 [\<lparr>ck_state = d, inversePatches = snd (derivePatches eng (state a) d)\<rparr>],
               future = []\<rparr>\<rparr> \<and>
         ((\<forall>callback\<in>set (butlast (subscribers a)). run callback d = None) \<longrightarrow>
            emitted (sendMessage run eng cls m a) =
              map (\<lambda>callback. Notified callback d) (subscribers a)) \<and>
         ((\<forall>callback\<in>set (subscribers a). run callback d = None) \<longrightarrow>
            raised (sendMessage run eng cls m a) = None)"
  unfolding sendMessage_commits [OF assms]
  by (simp add: call_each_all_called call_each_returns)

text \<open>
  The message \<open>noop\<close>, on a counter with two subscribers that return and a non-empty
  \<open>future\<close>.
\<close>

theorem valid_message_pushes_one_checkpoint_witness:
  "isMessageTypeValid counterBehaviour (type (msg ''noop'')) \<and>
   handleMessage counterBehaviour (state watched_undone) (msg ''noop'') = Inr (state watched_undone) \<and>
   future (history watched_undone) \<noteq> [] \<and>
   quiet 1 (state watched_undone) = None \<and> quiet 2 (state watched_undone) = None \<and>
   sendMessage quiet counterEngine counterBehaviour (msg ''noop'') watched_undone =
     \<lparr>after = \<lparr>actor_id = ''counter'', state = \<lparr>count = 0\<rparr>, subscribers = [1, 2],
         history = \<lparr>past = [\<lparr>ck_state = \<lparr>count = 0\<rparr>, inversePatches = []\<rparr>], future = []\<rparr>\<rparr>,
      emitted = [Notified 1 \<lparr>count = 0\<rparr>, Notified 2 \<lparr>count = 0\<rparr>],
      raised = None\<rparr>"
proof -
  note c = valid_message_pushes_one_checkpoint [OF counter_valid(2) counter_handle(2),
      where a = watched_undone and eng = counterEngine and run = quiet]
  have q: "\<forall>callback\<in>set (subscribers watched_undone). quiet callback (state watched_undone) = None"
    "\<forall>callback\<in>set (butlast (subscribers watched_undone)).
       quiet callback (state watched_undone) = None"
    by (simp_all add: quiet_def)
  from c q have
    "after (sendMessage quiet counterEngine counterBehaviour (msg ''noop'') watched_undone) =
       \<lparr>actor_id = ''counter'', state = \<lparr>count = 0\<rparr>, subscribers = [1, 2],
         history = \<lparr>past = [\<lparr>ck_state = \<lparr>count = 0\<rparr>, inversePatches = []\<rparr>], future = []\<rparr>\<rparr>"
    "emitted (sendMessage quiet counterEngine counterBehaviour (msg ''noop'') watched_undone) =
       [Notified 1 \<lparr>count = 0\<rparr>, Notified 2 \<lparr>count = 0\<rparr>]"
    "raised (sendMessage quiet counterEngine counterBehaviour (msg ''noop'') watched_undone) = None"
    by (simp_all add: watched_undone_eval counterEngine_def counter_derive_def)
  then have "sendMessage quiet counterEngine counterBehaviour (msg ''noop'') watched_undone =
     \<lparr>after = \<lparr>actor_id = ''counter'', state = \<lparr>count = 0\<rparr>, subscribers = [1, 2],
         history = \<lparr>past = [\<lparr>ck_state = \<lparr>count = 0\<rparr>, inversePatches = []\<rparr>], future = []\<rparr>\<rparr>,
      emitted = [Notified 1 \<lparr>count = 0\<rparr>, Notified 2 \<lparr>count = 0\<rparr>],
      raised = None\<rparr>"
    by (cases "sendMessage quiet counterEngine counterBehaviour (msg ''noop'') watched_undone")
      simp
  then show ?thesis
    using counter_valid(2) counter_handle(2) [of "state watched_undone"]
    by (simp add: watched_undone_eval quiet_def)
qed

text \<open>
  The claim as stated, for every message whose type is valid, fails when the handler
  raises: the message \<open>fail\<close> is valid, and \<open>sendMessage\<close> pushes nothing, leaves
  \<open>future\<close> as it was and notifies nobody. It also fails when the handler returns and
  a subscriber raises: the checkpoint is pushed and \<open>future\<close> is cleared, but
  subscriber 2 is not notified, and \<open>sendMessage\<close> raises.
\<close>

theorem every_valid_message_checkpoints_counterexample:
  "isMessageTypeValid counterBehaviour (type (msg ''fail'')) \<and>
   length (past (history (after
     (sendMessage quiet counterEngine counterBehaviour (msg ''fail'') watched_undone)))) \<noteq>
     length (past (history watched_undone)) + 1 \<and>
   future (history (after
     (sendMessage quiet counterEngine counterBehaviour (msg ''fail'') watched_undone))) \<noteq> [] \<and>
   emitted (sendMessage quiet counterEngine counterBehaviour (msg ''fail'') watched_undone) = [] \<and>
   isMessageTypeValid counterBehaviour (type (msg ''noop'')) \<and>
   subscribers watched_undone = [1, 2] \<and>
   length (past (history (after
     (sendMessage first_fails counterEngine counterBehaviour (msg ''noop'') watched_undone)))) =
     length (past (history watched_undone)) + 1 \<and>
   future (history (after
     (sendMessage first_fails counterEngine counterBehaviour (msg ''noop'') watched_undone))) = [] \<and>
   emitted (sendMessage first_fails counterEngine counterBehaviour (msg ''noop'') watched_undone) =
     [Notified 1 \<lparr>count = 0\<rparr>] \<and>
   raised (sendMessage first_fails counterEngine counterBehaviour (msg ''noop'') watched_undone) =
     Some ''subscriber failed''"
  unfolding sendMessage_raises [OF counter_valid(3) counter_handle(3)]
    sendMessage_commits [OF counter_valid(2) counter_handle(2)]
  by (simp add: watched_undone_eval counter_valid first_fails_def)



end
